theory Spec2Isabelle
  imports Complex_Main "HOL-Library.Word"
begin

section \<open>JavaScript strings\<close>

text \<open>
  A JavaScript string is a sequence of UTF-16 code units, and the regular expressions of
  \<^verbatim>\<open>src/index.ts\<close> carry no \<^verbatim>\<open>u\<close> flag, so they match code unit by code unit.
  A string is therefore a list of 16-bit words. \<open>js\<close> turns an ASCII literal into such a
  string; it is only used to write literals down.
\<close>

type_synonym jschar = "16 word"
type_synonym jsstring = "jschar list"

definition js :: "string \<Rightarrow> jsstring" where
  "js s = map of_char s"

text \<open>
  ECMAScript's LineTerminator code points (LF, CR, LS, PS), its \<^verbatim>\<open>\s\<close> class (WhiteSpace
  and LineTerminator), the class \<^verbatim>\<open>.\<close> of a pattern without the \<^verbatim>\<open>s\<close> flag, and the class
  \<^verbatim>\<open>[A-Z0-9]\<close>.
\<close>

definition is_line_terminator :: "jschar \<Rightarrow> bool" where
  "is_line_terminator c = (c = 0x000A \<or> c = 0x000D \<or> c = 0x2028 \<or> c = 0x2029)"

definition is_space :: "jschar \<Rightarrow> bool" where
  "is_space c =
     (c = 0x0009 \<or> c = 0x000B \<or> c = 0x000C \<or> c = 0x0020 \<or> c = 0x00A0 \<or> c = 0x1680
      \<or> (0x2000 \<le> c \<and> c \<le> 0x200A) \<or> c = 0x202F \<or> c = 0x205F \<or> c = 0x3000
      \<or> c = 0xFEFF \<or> is_line_terminator c)"

definition is_dot :: "jschar \<Rightarrow> bool" where
  "is_dot c = (\<not> is_line_terminator c)"

definition is_upper_or_digit :: "jschar \<Rightarrow> bool" where
  "is_upper_or_digit c = ((0x41 \<le> c \<and> c \<le> 0x5A) \<or> (0x30 \<le> c \<and> c \<le> 0x39))"

definition is_upper :: "jschar \<Rightarrow> bool" where
  "is_upper c = (0x41 \<le> c \<and> c \<le> 0x5A)"

definition is_digit :: "jschar \<Rightarrow> bool" where
  "is_digit c = (0x30 \<le> c \<and> c \<le> 0x39)"

section \<open>Data model\<close>

text \<open>
  Modelled from the spec: the node type of the external subtitle parser (\<^verbatim>\<open>parseSync\<close> of
  the \<^verbatim>\<open>subtitle\<close> package), which is not part of the repository. A node has a \<^verbatim>\<open>type\<close> tag
  and \<^verbatim>\<open>data\<close>; for a node of type \<^verbatim>\<open>'cue'\<close> the data is an object with opaque timing
  fields and a nullable \<^verbatim>\<open>text\<close>, for any other node (a header) it is not touched by the
  pipeline. \<open>'t\<close> stands for the opaque timing fields.
\<close>

record 't cue_data =
  timing :: 't
  cue_text :: "jsstring option"

datatype 't node = Cue "'t cue_data" | Header jsstring

text \<open>
  \<^verbatim>\<open>parseFile\<close> adds a \<^verbatim>\<open>code\<close> to every node, the result of \<^verbatim>\<open>randomCode(3, 3)\<close>: three random
  letters of A to Z followed by three random digits. The codes are drawn at random, so
  a parsed sequence with its codes is the input of the model.
\<close>

record 't parsed_item =
  node :: "'t node"
  code :: jsstring

text \<open>\<^verbatim>\<open>applyTranslationCues\<close> adds \<^verbatim>\<open>translated\<close> (a string or \<^verbatim>\<open>null\<close>).\<close>

record 't applied_item = "'t parsed_item" +
  translated :: "jsstring option"

text \<open>
  What \<^verbatim>\<open>prepareOutput\<close> returns for one item: the item itself (\<open>Kept\<close>, with its
  \<^verbatim>\<open>code\<close> and \<^verbatim>\<open>translated\<close> fields), or a new object without these two fields and with
  the text replaced (\<open>Rewritten\<close>).
\<close>

datatype 't prepared = Kept "'t applied_item" | Rewritten "'t node"

text \<open>JavaScript truthiness of a nullable string: \<^verbatim>\<open>null\<close>, \<^verbatim>\<open>undefined\<close> and \<^verbatim>\<open>''\<close> are falsy.\<close>

fun truthy :: "jsstring option \<Rightarrow> bool" where
  "truthy None = False"
| "truthy (Some s) = (s \<noteq> [])"

section \<open>Reassembly: applyTranslationCues and prepareOutput\<close>

text \<open>
  \<^verbatim>\<open>new Map(translations.map(({ code, text }) => [code, text]))\<close>: the entries are set one
  after the other, so the last entry of a code wins.
\<close>

definition new_Map :: "(jsstring \<times> jsstring) list \<Rightarrow> (jsstring \<rightharpoonup> jsstring)" where
  "new_Map entries = foldl (\<lambda>m (k, v). m(k \<mapsto> v)) Map.empty entries"

definition applyTranslationCues ::
  "'t parsed_item list \<Rightarrow> (jsstring \<times> jsstring) list \<Rightarrow> 't applied_item list" where
  "applyTranslationCues parsed translations =
     (let m = new_Map translations
      in map (\<lambda>item. parsed_item.extend item
                (applied_item.fields (m (code item)))) parsed)"

text \<open>
  \<^verbatim>\<open>if (!item.translated || item.type !== 'cue' || !item.data) return item\<close>; the data of a
  cue node is an object, hence truthy.
\<close>

definition prepare_item :: "'t applied_item \<Rightarrow> 't prepared" where
  "prepare_item item =
     (if \<not> truthy (translated item) then Kept item
      else (case node item of
              Header h \<Rightarrow> Kept item
            | Cue d \<Rightarrow> Rewritten (Cue (d\<lparr>cue_text := translated item\<rparr>))))"

definition prepareOutput :: "'t applied_item list \<Rightarrow> 't prepared list" where
  "prepareOutput translated_items = map prepare_item translated_items"

text \<open>What the serializer reads of an output record: its \<^verbatim>\<open>type\<close> and \<^verbatim>\<open>data\<close>.\<close>

fun out_node :: "'t prepared \<Rightarrow> 't node" where
  "out_node (Kept item) = node item"
| "out_node (Rewritten n) = n"


fun node_text :: "'t node \<Rightarrow> jsstring option" where
  "node_text (Cue d) = cue_text d"
| "node_text (Header h) = None"

fun is_cue :: "'t node \<Rightarrow> bool" where
  "is_cue (Cue d) = True"
| "is_cue (Header h) = False"

text \<open>A node with the text of a cue blanked: everything of it but the text.\<close>

fun without_text :: "'t node \<Rightarrow> 't node" where
  "without_text (Cue d) = Cue (d\<lparr>cue_text := None\<rparr>)"
| "without_text (Header h) = Header h"

section \<open>Errors and numbers\<close>

text \<open>The exceptions the pipeline can raise; \<^verbatim>\<open>main\<close> lets them escape, and no output is written.\<close>

datatype error = RangeError | TypeError

text \<open>
  The batch size is what \<^verbatim>\<open>parseInt(value, 10)\<close> returns (or the default 15): an integer or
  \<^verbatim>\<open>NaN\<close>.
\<close>

datatype js_number = Finite int | NaN

section \<open>Batching: getMessageQueue\<close>

text \<open>
  \<^verbatim>\<open>Array.prototype.slice(start, end)\<close> on integer arguments: a negative index counts from
  the end, and both are clamped to the array.
\<close>

definition slice :: "'a list \<Rightarrow> int \<Rightarrow> int \<Rightarrow> 'a list" where
  "slice xs start final =
     (let len = int (length xs);
          k = (if start < 0 then max (len + start) 0 else min start len);
          e = (if final < 0 then max (len + final) 0 else min final len)
      in take (nat (e - k)) (drop (nat k) xs))"

text \<open>
  \<^verbatim>\<open>Array(Math.ceil(cues.length / batchSize))\<close>. The quotient of a length by \<^verbatim>\<open>NaN\<close> or by 0 is
  \<^verbatim>\<open>NaN\<close> or \<^verbatim>\<open>Infinity\<close>, and \<^verbatim>\<open>Array\<close> raises a RangeError on anything but an integer from 0 to
  2^32 - 1. For an integer divisor \<open>b \<noteq> 0\<close> the ceiling of the quotient is \<open>- ((- n) div b)\<close>
  (a length is below 2^32, so the double division is exact enough for the ceiling); it is
  negative zero or negative when \<open>b < 0\<close>, and \<^verbatim>\<open>Array(-0)\<close> is the empty array.
\<close>

definition batch_count :: "nat \<Rightarrow> js_number \<Rightarrow> error + nat" where
  "batch_count n batchSize =
     (case batchSize of
        NaN \<Rightarrow> Inl RangeError
      | Finite b \<Rightarrow>
          if b = 0 then Inl RangeError
          else (let k = - ((- int n) div b)
                in if k < 0 then Inl RangeError else Inr (nat k)))"

text \<open>The template literal \<^verbatim>\<open>`<${code}>\n${data.text}`\<close>.\<close>

definition message :: "jsstring \<Rightarrow> jsstring \<Rightarrow> jsstring" where
  "message c t = [0x3C] @ c @ [0x3E, 0x0A] @ t"

text \<open>The message of one item: \<^verbatim>\<open>type === 'cue' && !!data?.text ? `<${code}>\n${data.text}` : null\<close>.\<close>

definition message_of :: "'t parsed_item \<Rightarrow> jsstring option" where
  "message_of item =
     (case node item of
        Header h \<Rightarrow> None
      | Cue d \<Rightarrow>
          (case cue_text d of
             None \<Rightarrow> None
           | Some t \<Rightarrow> if t = [] then None else Some (message (code item) t)))"

definition messages :: "'t parsed_item list \<Rightarrow> jsstring list" where
  "messages parsed = map the (filter truthy (map message_of parsed))"

definition getMessageQueue :: "'t parsed_item list \<Rightarrow> js_number \<Rightarrow> error + jsstring list list" where
  "getMessageQueue parsed batchSize =
     (let cues = messages parsed
      in case batch_count (length cues) batchSize of
           Inl e \<Rightarrow> Inl e
         | Inr batches \<Rightarrow>
             (case batchSize of
                NaN \<Rightarrow> Inl RangeError
              | Finite b \<Rightarrow>
                  Inr (map (\<lambda>index. slice cues (int index * b) ((int index + 1) * b))
                         [0..<batches])))"

section \<open>String operations\<close>

text \<open>\<^verbatim>\<open>Array.prototype.join\<close> on an array of strings.\<close>

fun join :: "jsstring \<Rightarrow> jsstring list \<Rightarrow> jsstring" where
  "join sep [] = []"
| "join sep [x] = x"
| "join sep (x # y # ys) = x @ sep @ join sep (y # ys)"

text \<open>
  \<^verbatim>\<open>String.prototype.split\<close> with a string separator: the pieces between the occurrences of
  the separator, found from the left, none overlapping another. \<open>cur\<close> is the piece under
  construction.
\<close>

function split_from :: "jsstring \<Rightarrow> jsstring \<Rightarrow> jsstring \<Rightarrow> jsstring list" where
  "split_from sep cur [] = [cur]"
| "split_from sep cur (c # cs) =
     (if sep \<noteq> [] \<and> take (length sep) (c # cs) = sep
      then cur # split_from sep [] (drop (length sep) (c # cs))
      else split_from sep (cur @ [c]) cs)"
  by pat_completeness auto
termination
  by (relation "measure (\<lambda>(sep, cur, s). length s)") auto

definition split :: "jsstring \<Rightarrow> jsstring \<Rightarrow> jsstring list" where
  "split s sep = split_from sep [] s"

text \<open>The position of the first occurrence of a string in another (\<^verbatim>\<open>indexOf\<close>).\<close>

fun index_of :: "jsstring \<Rightarrow> jsstring \<Rightarrow> nat option" where
  "index_of pat [] = (if pat = [] then Some 0 else None)"
| "index_of pat (c # cs) =
     (if take (length pat) (c # cs) = pat then Some 0 else map_option Suc (index_of pat cs))"

text \<open>
  ECMAScript's GetSubstitution for a string pattern, which has no capture: in the
  replacement text \<^verbatim>\<open>$$\<close> is a dollar sign, \<^verbatim>\<open>$&\<close> the matched text, \<^verbatim>\<open>$`\<close> the text before
  the match and \<^verbatim>\<open>$'\<close> the text after it; every other character stands for itself.
\<close>

fun getSubstitution :: "jsstring \<Rightarrow> jsstring \<Rightarrow> jsstring \<Rightarrow> jsstring \<Rightarrow> jsstring" where
  "getSubstitution matched pre post [] = []"
| "getSubstitution matched pre post [c] = [c]"
| "getSubstitution matched pre post (c # d # t) =
     (if c = 0x24 \<and> d = 0x24 then 0x24 # getSubstitution matched pre post t
      else if c = 0x24 \<and> d = 0x26 then matched @ getSubstitution matched pre post t
      else if c = 0x24 \<and> d = 0x60 then pre @ getSubstitution matched pre post t
      else if c = 0x24 \<and> d = 0x27 then post @ getSubstitution matched pre post t
      else c # getSubstitution matched pre post (d # t))"

text \<open>\<^verbatim>\<open>String.prototype.replace\<close> with a string pattern: the first occurrence only.\<close>

definition replace_string :: "jsstring \<Rightarrow> jsstring \<Rightarrow> jsstring \<Rightarrow> jsstring" where
  "replace_string s pat replacement =
     (case index_of pat s of
        None \<Rightarrow> s
      | Some pos \<Rightarrow>
          (let pre = take pos s; post = drop (pos + length pat) s
           in pre @ getSubstitution pat pre post replacement @ post))"

section \<open>Regular expressions\<close>

text \<open>
  The two patterns of the source are sequences of these atoms: a single character of a
  class (\<open>Cls\<close>), a greedy repetition \<^verbatim>\<open>*\<close> of a class (\<open>Star\<close>), the assertions \<^verbatim>\<open>^\<close> and \<^verbatim>\<open>$\<close>
  under the \<^verbatim>\<open>m\<close> flag (\<open>Bol\<close>, \<open>Eol\<close>), and the parentheses of a capture group
  (\<open>Open\<close>, \<open>Close\<close>).
\<close>

datatype atom = Cls "jschar \<Rightarrow> bool" | Star "jschar \<Rightarrow> bool" | Bol | Eol | Open | Close

text \<open>The first result of \<open>f k\<close>, for \<open>k\<close> from \<open>n\<close> down to 0: the greedy choice, then backtracking.\<close>

fun first_down :: "(nat \<Rightarrow> 'a option) \<Rightarrow> nat \<Rightarrow> 'a option" where
  "first_down f 0 = f 0"
| "first_down f (Suc k) = (case f (Suc k) of Some r \<Rightarrow> Some r | None \<Rightarrow> first_down f k)"

text \<open>
  \<^verbatim>\<open>^\<close> holds at the start of the input and after a line terminator, \<^verbatim>\<open>$\<close> at the end of the
  input and before a line terminator. \<open>prev\<close> is the character before the position, if any.
\<close>

fun at_line_start :: "jschar option \<Rightarrow> bool" where
  "at_line_start None = True"
| "at_line_start (Some c) = is_line_terminator c"

fun at_line_end :: "jsstring \<Rightarrow> bool" where
  "at_line_end [] = True"
| "at_line_end (c # cs) = is_line_terminator c"

text \<open>The character before the position reached after \<open>k\<close> more characters of \<open>inp\<close>.\<close>

definition prev_after :: "jschar option \<Rightarrow> jsstring \<Rightarrow> nat \<Rightarrow> jschar option" where
  "prev_after prev inp k = (case rev (take k inp) of [] \<Rightarrow> prev | c # cs \<Rightarrow> Some c)"

text \<open>
  The backtracking matcher, at one position: \<open>inp\<close> is the input from the position on, \<open>n\<close>
  the number of characters matched so far, \<open>caps\<close> the values of \<open>n\<close> at the parentheses
  passed so far. The result is the length of the match and the offsets of the
  parentheses, relative to the start of the match.
\<close>

fun bt :: "atom list \<Rightarrow> jschar option \<Rightarrow> jsstring \<Rightarrow> nat \<Rightarrow> nat list \<Rightarrow> (nat \<times> nat list) option" where
  "bt [] prev inp n caps = Some (n, caps)"
| "bt (Cls p # r) prev inp n caps =
     (case inp of
        [] \<Rightarrow> None
      | c # cs \<Rightarrow> if p c then bt r (Some c) cs (Suc n) caps else None)"
| "bt (Star p # r) prev inp n caps =
     first_down (\<lambda>k. bt r (prev_after prev inp k) (drop k inp) (n + k) caps)
       (length (takeWhile p inp))"
| "bt (Bol # r) prev inp n caps = (if at_line_start prev then bt r prev inp n caps else None)"
| "bt (Eol # r) prev inp n caps = (if at_line_end inp then bt r prev inp n caps else None)"
| "bt (Open # r) prev inp n caps = bt r prev inp n (caps @ [n])"
| "bt (Close # r) prev inp n caps = bt r prev inp n (caps @ [n])"

text \<open>
  RegExpBuiltinExec of a pattern with the \<^verbatim>\<open>g\<close> flag: the first position, from the current
  one on, where the pattern matches. The result is the distance to that position, the
  length of the match and the offsets of the parentheses.
\<close>

fun search :: "atom list \<Rightarrow> jschar option \<Rightarrow> jsstring \<Rightarrow> (nat \<times> nat \<times> nat list) option" where
  "search re prev [] = (case bt re prev [] 0 [] of None \<Rightarrow> None | Some (l, caps) \<Rightarrow> Some (0, l, caps))"
| "search re prev (c # cs) =
     (case bt re prev (c # cs) 0 [] of
        Some (l, caps) \<Rightarrow> Some (0, l, caps)
      | None \<Rightarrow> (case search re (Some c) cs of
                   None \<Rightarrow> None
                 | Some (i, l, caps) \<Rightarrow> Some (Suc i, l, caps)))"

text \<open>\<^verbatim>\<open>/^\s*(.*)\s*$/gm\<close> and \<^verbatim>\<open>/<([A-Z0-9]{6})>\n(.*)/gm\<close>.\<close>

definition regex_trim :: "atom list" where
  "regex_trim = [Bol, Star is_space, Open, Star is_dot, Close, Star is_space, Eol]"

definition regex_cue :: "atom list" where
  "regex_cue =
     [Cls (\<lambda>c. c = 0x3C), Open,
      Cls is_upper_or_digit, Cls is_upper_or_digit, Cls is_upper_or_digit,
      Cls is_upper_or_digit, Cls is_upper_or_digit, Cls is_upper_or_digit, Close,
      Cls (\<lambda>c. c = 0x3E), Cls (\<lambda>c. c = 0x0A), Open, Star is_dot, Close]"

text \<open>
  \<^verbatim>\<open>translation.replace(/^\s*(.*)\s*$/gm, '$1')\<close>, from a position on (\<open>inp\<close> is the input from
  there, \<open>prev\<close> the character before it). RegExp.prototype[Symbol.replace] collects the
  matches one after the other, each search starting where the last match ended, or one
  character further when that match was empty; the result is the input with every
  match replaced by its first group, the text between the matches unchanged. Here the
  text before a match and the first group are emitted as soon as the match is found.
  The function terminates because a match lies within the input.
\<close>

function replace_trim_from :: "jschar option \<Rightarrow> jsstring \<Rightarrow> jsstring" where
  "replace_trim_from prev inp =
     (case search regex_trim prev inp of
        None \<Rightarrow> inp
      | Some (i, l, caps) \<Rightarrow>
          take i inp
          @ (case caps of [b, e] \<Rightarrow> take (e - b) (drop (i + b) inp) | _ \<Rightarrow> [])
          @ (if l = 0
             then (case drop i inp of
                     [] \<Rightarrow> []
                   | c # cs \<Rightarrow> c # replace_trim_from (Some c) cs)
             else replace_trim_from (prev_after prev inp (i + l)) (drop (i + l) inp)))"
  by pat_completeness auto
termination
proof -
  have first_down_Some: "\<exists>j\<le>k. f j = Some x"
    if "first_down f k = Some x" for f :: "nat \<Rightarrow> (nat \<times> nat list) option" and k x
    using that by (induction k) (auto split: option.splits intro: le_SucI)
  have bt_bounds: "n \<le> m \<and> m \<le> n + length inp"
    if "bt r prev inp n caps = Some (m, caps')" for r prev inp n caps m caps'
    using that
  proof (induction r arbitrary: prev inp n caps)
    case Nil
    then show ?case by simp
  next
    case (Cons a r)
    show ?case
    proof (cases a)
      case (Cls p)
      with Cons.prems obtain c cs where inp: "inp = c # cs" and "p c"
        and step: "bt r (Some c) cs (Suc n) caps = Some (m, caps')"
        by (auto split: list.splits if_splits)
      from Cons.IH [OF step] inp show ?thesis by simp
    next
      case (Star p)
      with Cons.prems obtain j where j: "j \<le> length (takeWhile p inp)"
        and step: "bt r (prev_after prev inp j) (drop j inp) (n + j) caps = Some (m, caps')"
        by (auto dest!: first_down_Some)
      have "length (takeWhile p inp) \<le> length inp" by (rule length_takeWhile_le)
      with Cons.IH [OF step] j show ?thesis by simp
    next
      case Bol
      with Cons.prems Cons.IH show ?thesis by (auto split: if_splits)
    next
      case Eol
      with Cons.prems Cons.IH show ?thesis by (auto split: if_splits)
    next
      case Open
      with Cons.prems Cons.IH show ?thesis by auto
    next
      case Close
      with Cons.prems Cons.IH show ?thesis by auto
    qed
  qed
  have search_bounds: "i + l \<le> length inp"
    if "search re prev inp = Some (i, l, caps)" for re prev inp i l caps
    using that
  proof (induction inp arbitrary: prev i)
    case Nil
    then show ?case by (auto split: option.splits dest: bt_bounds)
  next
    case (Cons c cs)
    then show ?case by (fastforce split: option.splits dest: bt_bounds)
  qed
  show ?thesis
    apply (relation "measure (\<lambda>(prev, inp). length inp)")
      apply simp
     apply (auto dest!: search_bounds arg_cong [where f = length])
    done
qed

declare replace_trim_from.simps [simp del]

definition replace_trim :: "jsstring \<Rightarrow> jsstring" where
  "replace_trim s = replace_trim_from None s"

section \<open>Translation: getChatGPTAnswer, translateQueue, translateQueues\<close>

text \<open>
  The configuration the core reads, and the answer of the external service to one
  \<^verbatim>\<open>createChatCompletion\<close> call: the promise is rejected, or it resolves to a completion
  with a list of choices, each with the content of its message (\<open>None\<close> when the choice
  has no message or the message no content).
\<close>

record options =
  prompt :: jsstring
  language :: jsstring
  batchSize :: js_number

datatype api_result = Rejected | Resolved "jsstring option list"

text \<open>
  A rejected promise is caught and gives \<^verbatim>\<open>null\<close>. Of a completion the code reads
  \<^verbatim>\<open>choices[0].message?.content\<close>: with no choice at all, \<^verbatim>\<open>choices[0]\<close> is \<^verbatim>\<open>undefined\<close> and
  reading its \<^verbatim>\<open>message\<close> raises a TypeError.
\<close>

definition getChatGPTAnswer :: "(jsstring \<Rightarrow> api_result) \<Rightarrow> jsstring \<Rightarrow> error + jsstring option" where
  "getChatGPTAnswer api p =
     (case api p of
        Rejected \<Rightarrow> Inr None
      | Resolved [] \<Rightarrow> Inl TypeError
      | Resolved (c # cs) \<Rightarrow> Inr c)"

text \<open>An answer from which \<open>getChatGPTAnswer\<close> returns nothing to parse: the call failed.\<close>

definition no_content :: "api_result \<Rightarrow> bool" where
  "no_content r =
     (case r of
        Rejected \<Rightarrow> True
      | Resolved [] \<Rightarrow> False
      | Resolved (c # cs) \<Rightarrow> \<not> truthy c)"

text \<open>The separator line \<^verbatim>\<open>\n<000000>\n\<close> and the two slots of the prompt template.\<close>

definition separator :: jsstring where
  "separator = [0x0A, 0x3C, 0x30, 0x30, 0x30, 0x30, 0x30, 0x30, 0x3E, 0x0A]"

definition lang_slot :: jsstring where
  "lang_slot = js ''[lang]''"

definition text_slot :: jsstring where
  "text_slot = js ''[text]''"

definition build_prompt :: "options \<Rightarrow> jsstring list \<Rightarrow> jsstring" where
  "build_prompt opts queue =
     replace_string (replace_string (prompt opts) lang_slot (language opts))
       text_slot (join separator queue)"

text \<open>
  \<open>translateQueue\<close> returns the prompt it sent together with its result, so that the
  calls of a run can be listed.
\<close>

definition translateQueue ::
  "options \<Rightarrow> (jsstring \<Rightarrow> api_result) \<Rightarrow> jsstring list \<Rightarrow> jsstring \<times> (error + jsstring list)" where
  "translateQueue opts api queue =
     (let p = build_prompt opts queue
      in (p, case getChatGPTAnswer api p of
               Inl e \<Rightarrow> Inl e
             | Inr None \<Rightarrow> Inr queue
             | Inr (Some translation) \<Rightarrow>
                 if translation = [] then Inr queue
                 else Inr (split (replace_trim translation) separator)))"

text \<open>
  The queues are translated one after the other; \<open>api i\<close> is the service at its \<open>i\<close>-th
  call. The result is the list of the prompts sent and the concatenated results.
\<close>

fun translateQueues ::
  "options \<Rightarrow> (nat \<Rightarrow> jsstring \<Rightarrow> api_result) \<Rightarrow> nat \<Rightarrow> jsstring list list
     \<Rightarrow> jsstring list \<times> (error + jsstring list)" where
  "translateQueues opts api i [] = ([], Inr [])"
| "translateQueues opts api i (queue # queues) =
     (case translateQueue opts (api i) queue of
        (p, Inl e) \<Rightarrow> ([p], Inl e)
      | (p, Inr queueResult) \<Rightarrow>
          (case translateQueues opts api (Suc i) queues of
             (ps, Inl e) \<Rightarrow> (p # ps, Inl e)
           | (ps, Inr result) \<Rightarrow> (p # ps, Inr (queueResult @ result))))"

section \<open>Reply parsing: translatedToCues\<close>

text \<open>
  \<^verbatim>\<open>const [_, code, text] = item.matchAll(/<([A-Z0-9]{6})>\n(.*)/gm).next().value\<close>: the first
  match of the pattern in the item. When there is none the value is \<^verbatim>\<open>undefined\<close>, and
  destructuring it raises a TypeError. \<^verbatim>\<open>if (!code || !text) return null\<close>.
\<close>

definition cue_of_item :: "jsstring \<Rightarrow> error + (jsstring \<times> jsstring) option" where
  "cue_of_item item =
     (case search regex_cue None item of
        None \<Rightarrow> Inl TypeError
      | Some (i, l, caps) \<Rightarrow>
          (case caps of
             [b1, e1, b2, e2] \<Rightarrow>
               (let c = take (e1 - b1) (drop (i + b1) item);
                    t = take (e2 - b2) (drop (i + b2) item)
                in if c = [] \<or> t = [] then Inr None else Inr (Some (c, t)))
           | _ \<Rightarrow> Inl TypeError))"

text \<open>\<^verbatim>\<open>translated.map(...).filter(Boolean)\<close>; an exception in the callback ends the map.\<close>

fun translatedToCues :: "jsstring list \<Rightarrow> error + (jsstring \<times> jsstring) list" where
  "translatedToCues [] = Inr []"
| "translatedToCues (item # items) =
     (case cue_of_item item of
        Inl e \<Rightarrow> Inl e
      | Inr r \<Rightarrow>
          (case translatedToCues items of
             Inl e \<Rightarrow> Inl e
           | Inr cues \<Rightarrow> Inr ((case r of None \<Rightarrow> [] | Some cue \<Rightarrow> [cue]) @ cues)))"

text \<open>
  Notions to state what the parser finds: the input starts with a marker (\<^verbatim>\<open><\<close>, six
  characters of \<^verbatim>\<open>[A-Z0-9]\<close>, \<^verbatim>\<open>>\<close>, a line feed); the position of the first marker of an
  input; the code of a marker and the rest of the line after it.
\<close>

fun marker_at :: "jsstring \<Rightarrow> bool" where
  "marker_at (c0 # c1 # c2 # c3 # c4 # c5 # c6 # c7 # c8 # rest) =
     (c0 = 0x3C \<and> is_upper_or_digit c1 \<and> is_upper_or_digit c2 \<and> is_upper_or_digit c3
      \<and> is_upper_or_digit c4 \<and> is_upper_or_digit c5 \<and> is_upper_or_digit c6
      \<and> c7 = 0x3E \<and> c8 = 0x0A)"
| "marker_at s = False"

fun find_marker :: "jsstring \<Rightarrow> nat option" where
  "find_marker [] = None"
| "find_marker (c # cs) =
     (if marker_at (c # cs) then Some 0 else map_option Suc (find_marker cs))"

definition marker_line :: "jsstring \<Rightarrow> jsstring" where
  "marker_line s = takeWhile is_dot (drop 9 s)"

definition marker_code :: "jsstring \<Rightarrow> jsstring" where
  "marker_code s = take 6 (drop 1 s)"

section \<open>The run\<close>

text \<open>
  \<^verbatim>\<open>main\<close> between reading the input and serializing the output: the prompts sent to the
  service, and the prepared output or the exception that ended the run.
\<close>

definition main :: "options \<Rightarrow> (nat \<Rightarrow> jsstring \<Rightarrow> api_result) \<Rightarrow> 't parsed_item list
    \<Rightarrow> jsstring list \<times> (error + 't prepared list)" where
  "main opts api parsed =
     (case getMessageQueue parsed (batchSize opts) of
        Inl e \<Rightarrow> ([], Inl e)
      | Inr queues \<Rightarrow>
          (case translateQueues opts api 0 queues of
             (calls, Inl e) \<Rightarrow> (calls, Inl e)
           | (calls, Inr translated_items) \<Rightarrow>
               (case translatedToCues translated_items of
                  Inl e \<Rightarrow> (calls, Inl e)
                | Inr translatedCues \<Rightarrow>
                    (calls, Inr (prepareOutput (applyTranslationCues parsed translatedCues))))))"





definition is_randomCode :: "jsstring \<Rightarrow> bool" where
  "is_randomCode c = (length c = 6 \<and> list_all is_upper (take 3 c) \<and> list_all is_digit (drop 3 c))"



text \<open>The text of an item that is sent for translation, and the pairs of code and text sent.\<close>

definition own_text :: "'t parsed_item \<Rightarrow> jsstring option" where
  "own_text item =
     (case node_text (node item) of
        None \<Rightarrow> None
      | Some t \<Rightarrow> if t = [] then None else Some t)"

definition text_pairs :: "'t parsed_item list \<Rightarrow> (jsstring \<times> jsstring) list" where
  "text_pairs parsed =
     concat (map (\<lambda>item. case own_text item of None \<Rightarrow> [] | Some t \<Rightarrow> [(code item, t)]) parsed)"

text \<open>An item as \<^verbatim>\<open>applyTranslationCues\<close> returns it when its code has no translation.\<close>

definition untranslated :: "'t parsed_item \<Rightarrow> 't applied_item" where
  "untranslated item = \<lparr>node = node item, code = code item, translated = None\<rparr>"

section \<open>Example inputs\<close>

text \<open>
  A header and three cues with codes of the shape \<^verbatim>\<open>randomCode(3, 3)\<close> gives, and the default
  options of the command line.
\<close>

definition ex_header :: "nat parsed_item" where
  "ex_header = \<lparr>node = Header (js ''WEBVTT''), code = js ''XYZ789''\<rparr>"

definition ex_hello :: "nat parsed_item" where
  "ex_hello = \<lparr>node = Cue \<lparr>timing = 0, cue_text = Some (js ''Hello'')\<rparr>, code = js ''ABC123''\<rparr>"

definition ex_world :: "nat parsed_item" where
  "ex_world = \<lparr>node = Cue \<lparr>timing = 1, cue_text = Some (js ''World'')\<rparr>, code = js ''DEF456''\<rparr>"

definition ex_two_lines :: "nat parsed_item" where
  "ex_two_lines =
     \<lparr>node = Cue \<lparr>timing = 2, cue_text = Some (js ''Hello\<newline>World'')\<rparr>, code = js ''GHI789''\<rparr>"

definition ex_options :: options where
  "ex_options =
     \<lparr>prompt = js (''Translate the following text into [lang] but keep the 6 digit codes ''
                   @ ''between < > intact:\<newline>\<newline>[text]''),
      language = js ''en-us'',
      batchSize = Finite 15\<rparr>"





section \<open>Reassembly keeps length, order and structure\<close>

lemma prepare_item_without_text:
  "without_text (out_node (prepare_item a)) = without_text (node a)"
  by (cases "node a") (auto simp: prepare_item_def)

lemma prepare_item_not_cue: "\<not> is_cue (node a) \<Longrightarrow> out_node (prepare_item a) = node a"
  by (cases "node a") (auto simp: prepare_item_def)

lemma length_applyTranslationCues [simp]:
  "length (applyTranslationCues parsed translations) = length parsed"
  by (simp add: applyTranslationCues_def Let_def)

lemma length_prepareOutput [simp]: "length (prepareOutput items) = length items"
  by (simp add: prepareOutput_def)

lemma applyTranslationCues_nth:
  "i < length parsed \<Longrightarrow>
   applyTranslationCues parsed translations ! i =
     \<lparr>node = node (parsed ! i), code = code (parsed ! i),
      translated = new_Map translations (code (parsed ! i))\<rparr>"
  by (simp add: applyTranslationCues_def Let_def parsed_item.defs applied_item.defs)

text \<open>
  C5. For every parsed sequence and every list of recovered translations, the output of
  reassembly has the length of the input, and item by item the same node apart from the
  text of a cue (so nothing is dropped or reordered, and type and timing are kept); an
  item that is not a cue passes through with its node unmodified.
\<close>

theorem length_and_order_preserved:
  "length (prepareOutput (applyTranslationCues parsed translations)) = length parsed
   \<and> map (without_text \<circ> out_node) (prepareOutput (applyTranslationCues parsed translations))
       = map (without_text \<circ> node) parsed
   \<and> (\<forall>i<length parsed. \<not> is_cue (node (parsed ! i)) \<longrightarrow>
         out_node (prepareOutput (applyTranslationCues parsed translations) ! i)
           = node (parsed ! i))"
proof (intro conjI allI impI)
  show "length (prepareOutput (applyTranslationCues parsed translations)) = length parsed"
    by simp
  show "map (without_text \<circ> out_node) (prepareOutput (applyTranslationCues parsed translations))
       = map (without_text \<circ> node) parsed"
    by (simp add: prepareOutput_def applyTranslationCues_def Let_def prepare_item_without_text
        parsed_item.defs applied_item.defs)
  fix i assume i: "i < length parsed" and h: "\<not> is_cue (node (parsed ! i))"
  then show "out_node (prepareOutput (applyTranslationCues parsed translations) ! i)
      = node (parsed ! i)"
    by (simp add: prepareOutput_def prepare_item_not_cue applyTranslationCues_nth)
qed

theorem length_and_order_preserved_witness:
  "(0::nat) < length [ex_header, ex_hello]
   \<and> \<not> is_cue (node ([ex_header, ex_hello] ! 0))
   \<and> out_node (prepareOutput (applyTranslationCues [ex_header, ex_hello]
         [(js ''ABC123'', js ''Bonjour''), (js ''XYZ789'', js ''Salut'')]) ! 0)
       = Header (js ''WEBVTT'')"
  using length_and_order_preserved [of "[ex_header, ex_hello]"
      "[(js ''ABC123'', js ''Bonjour''), (js ''XYZ789'', js ''Salut'')]"]
  by (simp add: ex_header_def ex_hello_def)

section \<open>Batching\<close>

lemma slice_chunk:
  assumes "0 < c"
  shows "slice xs (int i * int c) ((int i + 1) * int c) = take c (drop (i * c) xs)"
proof -
  have s: "int i * int c = int (i * c)" "(int i + 1) * int c = int (i * c + c)"
    by (simp_all add: algebra_simps)
  show ?thesis
    unfolding slice_def Let_def s
    by (auto simp: min_def nat_diff_distrib' simp del: of_nat_mult of_nat_add)
qed

lemma concat_chunks: "concat (map (\<lambda>i. take c (drop (i * c) xs)) [0..<k]) = take (k * c) xs"
proof (induction k)
  case 0
  then show ?case by simp
next
  case (Suc k)
  have "concat (map (\<lambda>i. take c (drop (i * c) xs)) [0..<Suc k])
      = take (k * c) xs @ take c (drop (k * c) xs)"
    using Suc by simp
  also have "\<dots> = take (k * c + c) xs" by (simp add: take_add)
  finally show ?case by (simp add: add.commute)
qed

lemma ceil_div_bounds:
  assumes "0 < c"
  obtains k where "- ((- int n) div int c) = int k" "n \<le> k * c" "k * c < n + c"
proof -
  define q where "q = (- int n) div int c"
  define r where "r = (- int n) mod int c"
  have r: "0 \<le> r" "r < int c" using assms by (simp_all add: r_def)
  have eq: "- int n = q * int c + r" by (simp add: q_def r_def)
  have "q \<le> 0" using zdiv_mono1 [of "- int n" 0 "int c"] assms by (simp add: q_def)
  then obtain k where k: "- q = int k" by (metis neg_0_le_iff_le nonneg_int_cases)
  have "(- q) * int c = int n + r" using eq by (simp add: algebra_simps)
  then have "int k * int c = int n + r" by (simp add: k)
  then have "int (k * c) = int n + r" by simp
  then have "n \<le> k * c" "k * c < n + c" using r by linarith+
  with k show ?thesis using that by (simp add: q_def)
qed

lemma getMessageQueue_batches:
  assumes "1 \<le> b"
  shows "\<exists>qs. getMessageQueue parsed (Finite b) = Inr qs
     \<and> int (length qs) = \<lceil>real (length (messages parsed)) / real_of_int b\<rceil>
     \<and> (\<forall>i. i + 1 < length qs \<longrightarrow> int (length (qs ! i)) = b)
     \<and> (\<forall>i < length qs. 1 \<le> length (qs ! i) \<and> int (length (qs ! i)) \<le> b)
     \<and> concat qs = messages parsed"
proof -
  obtain c where c: "b = int c" "0 < c"
    using assms zero_less_imp_eq_int [of b] by auto
  define cues where "cues = messages parsed"
  define n where "n = length cues"
  obtain k where k: "- ((- int n) div int c) = int k" "n \<le> k * c" "k * c < n + c"
    using ceil_div_bounds [OF c(2)] by blast
  define qs where "qs = map (\<lambda>i. take c (drop (i * c) cues)) [0..<k]"
  have run: "getMessageQueue parsed (Finite b) = Inr qs"
    using c k(1) by (simp add: getMessageQueue_def batch_count_def Let_def cues_def [symmetric]
        n_def [symmetric] qs_def slice_chunk)
  have len: "length qs = k" by (simp add: qs_def)
  have ceil: "int (length qs) = \<lceil>real n / real_of_int b\<rceil>"
    using ceiling_divide_eq_div [where 'a = real, of "int n" "int c"] k(1) c len by simp
  have nth: "length (qs ! i) = min c (n - i * c)" if "i < k" for i
    using that by (simp add: qs_def n_def min.commute)
  have full: "int (length (qs ! i)) = b" if "i + 1 < length qs" for i
  proof -
    have "(i + 1) * c + c \<le> k * c" using that len
      by (metis Suc_eq_plus1 Suc_leI mult_Suc mult_le_mono1 add.commute)
    then have "i * c + c \<le> n" using k(3) by simp
    moreover have "i < k" using that len by simp
    ultimately show ?thesis using nth [of i] c by simp
  qed
  have some: "1 \<le> length (qs ! i) \<and> int (length (qs ! i)) \<le> b" if "i < length qs" for i
  proof -
    have "i * c + c \<le> k * c" using that len
      by (metis Suc_leI mult_Suc mult_le_mono1 add.commute)
    then have "i * c < n" using k(3) by simp
    then show ?thesis using nth [of i] that len c by simp
  qed
  have cat: "concat qs = cues"
    using k(2) by (simp add: qs_def concat_chunks n_def)
  show ?thesis
    using run ceil full some cat unfolding cues_def n_def by blast
qed

text \<open>
  C7. For every batch size \<open>b \<ge> 1\<close> and every parsed sequence with \<open>n\<close> messages (the cues
  with a text), \<open>getMessageQueue\<close> returns \<open>\<lceil>n / b\<rceil>\<close> batches, every batch but possibly the
  last has exactly \<open>b\<close> messages, no batch is empty or longer than \<open>b\<close>, and the batches
  concatenated are the messages in their order.
\<close>

theorem batch_partition:
  assumes "1 \<le> b"
  shows "\<exists>qs. getMessageQueue parsed (Finite b) = Inr qs
     \<and> int (length qs) = \<lceil>real (length (messages parsed)) / real_of_int b\<rceil>
     \<and> (\<forall>i. i + 1 < length qs \<longrightarrow> int (length (qs ! i)) = b)
     \<and> (\<forall>i < length qs. 1 \<le> length (qs ! i) \<and> int (length (qs ! i)) \<le> b)
     \<and> concat qs = messages parsed"
  using assms by (rule getMessageQueue_batches)

theorem batch_partition_witness:
  "(1::int) \<le> 2
   \<and> getMessageQueue [ex_hello, ex_header, ex_world, ex_two_lines] (Finite 2)
       = Inr [[js ''<ABC123>\<newline>Hello'', js ''<DEF456>\<newline>World''],
              [js ''<GHI789>\<newline>Hello\<newline>World'']]
   \<and> (\<exists>qs. getMessageQueue [ex_hello, ex_header, ex_world, ex_two_lines] (Finite 2) = Inr qs
         \<and> int (length qs)
             = \<lceil>real (length (messages [ex_hello, ex_header, ex_world, ex_two_lines]))
                 / real_of_int 2\<rceil>
         \<and> concat qs = messages [ex_hello, ex_header, ex_world, ex_two_lines])"
proof -
  have "getMessageQueue [ex_hello, ex_header, ex_world, ex_two_lines] (Finite 2)
       = Inr [[js ''<ABC123>\<newline>Hello'', js ''<DEF456>\<newline>World''],
              [js ''<GHI789>\<newline>Hello\<newline>World'']]"
    by code_simp
  moreover have "(1::int) \<le> 2" by simp
  ultimately show ?thesis
    using batch_partition [of 2 "[ex_hello, ex_header, ex_world, ex_two_lines]"] by blast
qed

section \<open>What the reply parser finds\<close>

lemma first_down_top: "f k = Some x \<Longrightarrow> first_down f k = Some x"
  by (cases k) auto

lemma bt_regex_cue:
  "bt regex_cue prev inp 0 [] =
     (if marker_at inp
      then Some (9 + length (marker_line inp), [1, 7, 9, 9 + length (marker_line inp)])
      else None)"
  by (induction inp rule: marker_at.induct) (auto simp: regex_cue_def first_down_top marker_line_def)

lemma search_regex_cue:
  "search regex_cue prev inp =
     (case find_marker inp of
        None \<Rightarrow> None
      | Some i \<Rightarrow> Some (i, 9 + length (marker_line (drop i inp)),
                       [1, 7, 9, 9 + length (marker_line (drop i inp))]))"
proof (induction inp arbitrary: prev)
  case Nil
  then show ?case by (simp add: bt_regex_cue)
next
  case (Cons c cs)
  then show ?case by (auto simp: bt_regex_cue split: option.splits)
qed

lemma find_marker_Some:
  "find_marker inp = Some i \<longleftrightarrow> marker_at (drop i inp) \<and> (\<forall>j<i. \<not> marker_at (drop j inp))"
proof (induction inp arbitrary: i)
  case Nil
  then show ?case by simp
next
  case (Cons c cs)
  show ?case
  proof (cases i)
    case 0
    then show ?thesis by auto
  next
    case (Suc k)
    then show ?thesis using Cons.IH [of k]
      by (auto simp: less_Suc_eq_0_disj)
  qed
qed

lemma find_marker_None:
  "find_marker inp = None \<longleftrightarrow> (\<forall>j. \<not> marker_at (drop j inp))"
proof (induction inp)
  case Nil
  then show ?case by simp
next
  case (Cons c cs)
  have "(\<forall>j. \<not> marker_at (drop j (c # cs))) \<longleftrightarrow> \<not> marker_at (c # cs) \<and> (\<forall>j. \<not> marker_at (drop j cs))"
    by (metis drop0 drop_Suc_Cons not0_implies_Suc)
  with Cons show ?case by auto
qed


lemma marker_at_code:
  "marker_at s \<Longrightarrow> length (marker_code s) = 6 \<and> list_all is_upper_or_digit (marker_code s)"
  by (induction s rule: marker_at.induct) (simp_all add: marker_code_def)


lemma marker_at_intro:
  assumes "length c = 6" "list_all is_upper_or_digit c"
  shows "marker_at ([0x3C] @ c @ [0x3E, 0x0A] @ r)"
    and "marker_code ([0x3C] @ c @ [0x3E, 0x0A] @ r) = c"
    and "drop 9 ([0x3C] @ c @ [0x3E, 0x0A] @ r) = r"
proof -
  obtain c1 c2 c3 c4 c5 c6 where c: "c = [c1, c2, c3, c4, c5, c6]"
    using assms(1) by (auto simp: length_Suc_conv eval_nat_numeral)
  show "marker_at ([0x3C] @ c @ [0x3E, 0x0A] @ r)" using assms(2) by (simp add: c)
  show "marker_code ([0x3C] @ c @ [0x3E, 0x0A] @ r) = c" by (simp add: c marker_code_def)
  show "drop 9 ([0x3C] @ c @ [0x3E, 0x0A] @ r) = r" by (simp add: c)
qed

lemma marker_line_props:
  "\<forall>ch\<in>set (marker_line s). \<not> is_line_terminator ch"
  unfolding marker_line_def using set_takeWhileD [of _ is_dot] by (auto simp: is_dot_def)

lemma cue_of_item_eq:
  "cue_of_item item =
     (case find_marker item of
        None \<Rightarrow> Inl TypeError
      | Some i \<Rightarrow>
          (if marker_line (drop i item) = [] then Inr None
           else Inr (Some (marker_code (drop i item), marker_line (drop i item)))))"
proof (cases "find_marker item")
  case None
  then show ?thesis by (simp add: cue_of_item_def search_regex_cue)
next
  case (Some i)
  define L where "L = length (marker_line (drop i item))"
  have s: "search regex_cue None item = Some (i, 9 + L, [1, 7, 9, 9 + L])"
    using Some by (simp add: search_regex_cue L_def)
  have t: "take (9 + L - 9) (drop (i + 9) item) = marker_line (drop i item)"
    by (simp add: marker_line_def add.commute L_def) (metis takeWhile_eq_take)
  have c: "take (7 - 1) (drop (i + 1) item) = marker_code (drop i item)"
    by (simp add: marker_code_def)
  have m: "marker_at (drop i item)" using Some by (simp add: find_marker_Some)
  then have ne: "marker_code (drop i item) \<noteq> []" using marker_at_code by fastforce
  have "cue_of_item item =
      (let c = take (7 - 1) (drop (i + 1) item); t = take (9 + L - 9) (drop (i + 9) item)
       in if c = [] \<or> t = [] then Inr None else Inr (Some (c, t)))"
    unfolding cue_of_item_def s by (simp only: option.case prod.case list.case)
  also have "\<dots> = (if marker_line (drop i item) = [] then Inr None
      else Inr (Some (marker_code (drop i item), marker_line (drop i item))))"
    unfolding t c Let_def using ne by simp
  finally show ?thesis using Some by simp
qed


lemma cue_of_item_Some:
  assumes "cue_of_item item = Inr (Some (c, t))"
  shows "t \<noteq> [] \<and> (\<forall>ch\<in>set t. \<not> is_line_terminator ch) \<and> length c = 6
     \<and> list_all is_upper_or_digit c"
proof -
  from assms obtain i where i: "find_marker item = Some i"
    and c: "c = marker_code (drop i item)" and t: "t = marker_line (drop i item)" and ne: "t \<noteq> []"
    by (auto simp: cue_of_item_eq split: option.splits if_splits)
  from i have "marker_at (drop i item)" by (simp add: find_marker_Some)
  with c t ne show ?thesis using marker_at_code marker_line_props by blast
qed

lemma translatedToCues_Inr:
  "translatedToCues items = Inr cues \<Longrightarrow>
     length cues \<le> length items
     \<and> (\<forall>p\<in>set cues. \<exists>item\<in>set items. cue_of_item item = Inr (Some p))"
proof (induction items arbitrary: cues)
  case Nil
  then show ?case by simp
next
  case (Cons item items)
  from Cons.prems obtain r rest where r: "cue_of_item item = Inr r"
    and rest: "translatedToCues items = Inr rest"
    and cues: "cues = (case r of None \<Rightarrow> [] | Some cue \<Rightarrow> [cue]) @ rest"
    by (auto split: sum.splits)
  from Cons.IH [OF rest] r cues show ?case by (cases r) auto
qed

section \<open>The map of translations\<close>

lemma foldl_upd_map_of:
  "foldl (\<lambda>m (k, v). m(k \<mapsto> v)) m entries k =
     (case map_of (rev entries) k of None \<Rightarrow> m k | Some v \<Rightarrow> Some v)"
  by (induction entries arbitrary: m) (auto simp: map_add_def split: option.splits)

lemma new_Map_map_of: "new_Map entries k = map_of (rev entries) k"
  by (simp add: new_Map_def foldl_upd_map_of split: option.splits)

lemma new_Map_Some: "new_Map entries k = Some v \<Longrightarrow> (k, v) \<in> set entries"
  by (auto simp: new_Map_map_of dest: map_of_SomeD)

lemma new_Map_None: "new_Map entries k = None \<longleftrightarrow> k \<notin> fst ` set entries"
  by (simp add: new_Map_map_of map_of_eq_None_iff)

lemma new_Map_distinct:
  "distinct (map fst entries) \<Longrightarrow> (k, v) \<in> set entries \<Longrightarrow> new_Map entries k = Some v"
  by (simp add: new_Map_map_of rev_map [symmetric])

lemma prepareOutput_nth:
  "i < length parsed \<Longrightarrow>
   prepareOutput (applyTranslationCues parsed translations) ! i =
     prepare_item \<lparr>node = node (parsed ! i), code = code (parsed ! i),
        translated = new_Map translations (code (parsed ! i))\<rparr>"
  by (simp add: prepareOutput_def applyTranslationCues_nth)

section \<open>Partial recovery and single-line texts\<close>

lemma translatedToCues_nonempty:
  assumes "translatedToCues items = Inr cues" "(c, t) \<in> set cues"
  shows "t \<noteq> [] \<and> (\<forall>ch\<in>set t. \<not> is_line_terminator ch)"
  using translatedToCues_Inr [OF assms(1)] assms(2) cue_of_item_Some by blast



text \<open>
  C10. Every text of a pair the parser produces is non-empty and contains no line feed (no
  line terminator at all); so a cue whose text is replaced ends with a text of one line.
\<close>

theorem recovered_text_is_one_line:
  assumes "translatedToCues items = Inr cues"
  shows "(\<forall>(c, t)\<in>set cues. t \<noteq> [] \<and> 0x0A \<notin> set t \<and> (\<forall>ch\<in>set t. \<not> is_line_terminator ch))
       \<and> (\<forall>i<length parsed. \<forall>n.
            prepareOutput (applyTranslationCues parsed cues) ! i = Rewritten n \<longrightarrow>
              (\<exists>t. node_text n = Some t \<and> t \<noteq> [] \<and> 0x0A \<notin> set t))"
proof (intro conjI allI impI ballI)
  fix p assume "p \<in> set cues"
  then show "case p of (c, t) \<Rightarrow> t \<noteq> [] \<and> 0x0A \<notin> set t \<and> (\<forall>ch\<in>set t. \<not> is_line_terminator ch)"
    using translatedToCues_nonempty [OF assms] by (cases p) (auto simp: is_line_terminator_def)
next
  fix i n assume i: "i < length parsed"
    and r: "prepareOutput (applyTranslationCues parsed cues) ! i = Rewritten n"
  from r i obtain d t where "new_Map cues (code (parsed ! i)) = Some t"
    and n: "n = Cue (d\<lparr>cue_text := Some t\<rparr>)"
    by (cases "new_Map cues (code (parsed ! i))"; cases "node (parsed ! i)")
      (auto simp: prepareOutput_nth prepare_item_def split: if_splits)
  then have "(code (parsed ! i), t) \<in> set cues" by (simp add: new_Map_Some)
  then have "t \<noteq> [] \<and> 0x0A \<notin> set t"
    using translatedToCues_nonempty [OF assms] by (auto simp: is_line_terminator_def)
  with n show "\<exists>t. node_text n = Some t \<and> t \<noteq> [] \<and> 0x0A \<notin> set t" by simp
qed

theorem recovered_text_is_one_line_witness:
  "translatedToCues [js ''<GHI789>\<newline>Bonjour\<newline>le monde''] = Inr [(js ''GHI789'', js ''Bonjour'')]
   \<and> (0::nat) < length [ex_two_lines]
   \<and> prepareOutput (applyTranslationCues [ex_two_lines] [(js ''GHI789'', js ''Bonjour'')]) ! 0
       = Rewritten (Cue \<lparr>timing = 2, cue_text = Some (js ''Bonjour'')\<rparr>)
   \<and> 0x0A \<notin> set (js ''Bonjour'')"
proof -
  have p: "translatedToCues [js ''<GHI789>\<newline>Bonjour\<newline>le monde'']
      = Inr [(js ''GHI789'', js ''Bonjour'')]"
    by code_simp
  have r: "prepareOutput (applyTranslationCues [ex_two_lines] [(js ''GHI789'', js ''Bonjour'')]) ! 0
       = Rewritten (Cue \<lparr>timing = 2, cue_text = Some (js ''Bonjour'')\<rparr>)"
    by code_simp
  from recovered_text_is_one_line [OF p, of "[ex_two_lines]"] r
  have "0x0A \<notin> set (js ''Bonjour'')" by auto
  with p r show ?thesis by simp
qed

section \<open>Segments with no marker, and segments with several\<close>

text \<open>
  C3. The claim is that parsing never raises and that a segment without a marker is
  ignored. The code raises instead: on the reply \<^verbatim>\<open>Hello\<close> the only segment has no match,
  \<^verbatim>\<open>matchAll(...).next().value\<close> is \<^verbatim>\<open>undefined\<close>, and destructuring it is a TypeError that ends
  the run.
\<close>

theorem reply_without_marker_raises:
  "translatedToCues (split (replace_trim (js ''Hello'')) separator) = Inl TypeError
   \<and> snd (main ex_options (\<lambda>i p. Resolved [Some (js ''Hello'')]) [ex_hello]) = Inl TypeError"
  by code_simp

text \<open>The same for every list of segments one of which holds no marker.\<close>

lemma segment_without_marker_raises:
  assumes "item \<in> set items" "\<forall>j. \<not> marker_at (drop j item)"
  shows "translatedToCues items = Inl TypeError"
  using assms(1)
proof (induction items)
  case Nil
  then show ?case by simp
next
  case (Cons x xs)
  have e: "cue_of_item y = Inl e \<Longrightarrow> e = TypeError" for y e
    by (auto simp: cue_of_item_eq split: option.splits if_splits)
  have "cue_of_item item = Inl TypeError"
    using assms(2) by (simp add: cue_of_item_eq find_marker_None [THEN iffD2])
  with Cons e show ?case by (auto split: sum.splits)
qed



lemma cue_of_item_first_marker:
  assumes "\<forall>j<length pre. \<not> marker_at (drop j (pre @ [0x3C] @ c @ [0x3E, 0x0A] @ t @ rest))"
    and "length c = 6" and "list_all is_upper_or_digit c"
    and "t \<noteq> []" and "list_all is_dot t"
    and "rest = [] \<or> is_line_terminator (hd rest)"
  shows "cue_of_item (pre @ [0x3C] @ c @ [0x3E, 0x0A] @ t @ rest) = Inr (Some (c, t))"
proof -
  let ?m = "[0x3C] @ c @ [0x3E, 0x0A] @ t @ rest"
  have m: "marker_at ?m" "marker_code ?m = c" "drop 9 ?m = t @ rest"
    using marker_at_intro [OF assms(2,3), of "t @ rest"] by simp_all
  have f: "find_marker (pre @ ?m) = Some (length pre)"
    using assms(1) m(1) by (simp add: find_marker_Some)
  have tw: "takeWhile is_dot (t @ rest) = t"
    using assms(5,6) by (cases rest) (auto simp: list_all_iff is_dot_def)
  have l: "marker_line ?m = t" unfolding marker_line_def m(3) by (fact tw)
  show ?thesis using f l m(2) assms(4) by (simp add: cue_of_item_eq)
qed



section \<open>Batch sizes below one\<close>

text \<open>
  C8, as stated, fails: with batch size -5 and two cues the run is not rejected; it ends
  normally, without any call, and returns the items untranslated.
\<close>

theorem negative_batch_size_is_not_rejected:
  "main (ex_options\<lparr>batchSize := Finite (- 5)\<rparr>) (\<lambda>i p. Rejected) [ex_hello, ex_world]
     = ([], Inr [Kept \<lparr>node = node ex_hello, code = code ex_hello, translated = None\<rparr>,
                 Kept \<lparr>node = node ex_world, code = code ex_world, translated = None\<rparr>])"
  by code_simp

lemma prepareOutput_no_translations:
  "prepareOutput (applyTranslationCues parsed []) = map (\<lambda>item. Kept (untranslated item)) parsed"
  by (simp add: prepareOutput_def applyTranslationCues_def new_Map_def prepare_item_def
      untranslated_def parsed_item.defs applied_item.defs)

text \<open>
  C8, amended. Nothing validates the batch size. For every integer batch size below 1 no
  call of the service is made: \<open>getMessageQueue\<close> raises a RangeError when the batch size
  is 0 or there are at least as many messages as its absolute value, and returns no
  batch otherwise, so that the run ends normally with every item untranslated.
\<close>

theorem batch_size_below_one:
  assumes "b < 1"
  shows "fst (main (opts\<lparr>batchSize := Finite b\<rparr>) api parsed) = []
     \<and> (b = 0 \<or> - b \<le> int (length (messages parsed)) \<longrightarrow>
          snd (main (opts\<lparr>batchSize := Finite b\<rparr>) api parsed) = Inl RangeError)
     \<and> (b \<noteq> 0 \<and> int (length (messages parsed)) < - b \<longrightarrow>
          snd (main (opts\<lparr>batchSize := Finite b\<rparr>) api parsed)
            = Inr (map (\<lambda>item. Kept (untranslated item)) parsed))"
proof -
  define n where "n = length (messages parsed)"
  have big: "batch_count n (Finite b) = Inl RangeError" if "b = 0 \<or> - b \<le> int n"
  proof (cases "b = 0")
    case True
    then show ?thesis by (simp add: batch_count_def)
  next
    case False
    with assms that have b: "b < 0" "- b \<le> int n" by auto
    have "(- int n) div b = int n div (- b)" by (metis div_minus_minus minus_minus)
    moreover have "0 < int n div (- b)" using pos_imp_zdiv_pos_iff [of "- b" "int n"] b by simp
    ultimately show ?thesis using False by (simp add: batch_count_def Let_def)
  qed
  have small: "batch_count n (Finite b) = Inr 0" if "b \<noteq> 0 \<and> int n < - b"
  proof -
    have "(- int n) div b = int n div (- b)" by (metis div_minus_minus minus_minus)
    moreover have "int n div (- b) = 0" using that by simp
    ultimately show ?thesis using that by (simp add: batch_count_def Let_def)
  qed
  have cases: "(b = 0 \<or> - b \<le> int n) \<or> (b \<noteq> 0 \<and> int n < - b)" by auto
  show ?thesis
    using big small cases
    by (auto simp: main_def getMessageQueue_def Let_def n_def [symmetric]
        prepareOutput_no_translations)
qed

theorem batch_size_below_one_witness:
  "(- 5 :: int) < 1
   \<and> int (length (messages [ex_hello, ex_world])) < - (- 5)
   \<and> main (ex_options\<lparr>batchSize := Finite (- 5)\<rparr>) (\<lambda>i p. Resolved [Some p]) [ex_hello, ex_world]
       = ([], Inr [Kept (untranslated ex_hello), Kept (untranslated ex_world)])
   \<and> - (- 2) \<le> int (length (messages [ex_hello, ex_world]))
   \<and> main (ex_options\<lparr>batchSize := Finite (- 2)\<rparr>) (\<lambda>i p. Resolved [Some p]) [ex_hello, ex_world]
       = ([], Inl RangeError)
   \<and> main (ex_options\<lparr>batchSize := Finite 0\<rparr>) (\<lambda>i p. Resolved [Some p]) [ex_hello, ex_world]
       = ([], Inl RangeError)"
proof -
  have n: "length (messages [ex_hello, ex_world]) = 2" by code_simp
  show ?thesis
    using batch_size_below_one [of "- 5" ex_options "\<lambda>i p. Resolved [Some p]" "[ex_hello, ex_world]"]
      batch_size_below_one [of "- 2" ex_options "\<lambda>i p. Resolved [Some p]" "[ex_hello, ex_world]"]
      batch_size_below_one [of 0 ex_options "\<lambda>i p. Resolved [Some p]" "[ex_hello, ex_world]"]
    by (simp add: n prod_eq_iff)
qed

section \<open>The code in the output\<close>





section \<open>Trimming leaves clean lines alone\<close>


lemma prev_after_0 [simp]: "prev_after prev inp 0 = prev"
  by (simp add: prev_after_def)












section \<open>An echoed batch comes back as it was sent\<close>




lemma is_randomCode_props:
  assumes "is_randomCode c"
  shows "length c = 6" and "list_all is_upper_or_digit c" and "0x0A \<notin> set c"
    and "list_all is_dot c"
proof -
  show "length c = 6" using assms by (simp add: is_randomCode_def)
  have "list_all is_upper_or_digit (take 3 c @ drop 3 c)"
    using assms unfolding is_randomCode_def list_all_append
    by (auto simp: list_all_iff is_upper_def is_digit_def is_upper_or_digit_def)
  then show ud: "list_all is_upper_or_digit c" by simp
  then show "0x0A \<notin> set c" by (auto simp: list_all_iff is_upper_or_digit_def)
  from ud show "list_all is_dot c"
    by (auto simp: list_all_iff is_upper_or_digit_def is_dot_def is_line_terminator_def)
qed












section \<open>Parsing the messages themselves\<close>

lemma message_of_own_text: "message_of item = map_option (message (code item)) (own_text item)"
  by (cases "node item") (auto simp: message_of_def own_text_def split: option.splits)

lemma message_nonempty: "message c t \<noteq> []"
  by (simp add: message_def)

lemma messages_text_pairs: "messages parsed = map (\<lambda>(c, t). message c t) (text_pairs parsed)"
proof (induction parsed)
  case Nil
  then show ?case by (simp add: messages_def text_pairs_def)
next
  case (Cons item parsed)
  then show ?case
    by (cases "own_text item")
      (simp_all add: messages_def text_pairs_def message_of_own_text message_nonempty)
qed

lemma text_pairs_set:
  "(c, t) \<in> set (text_pairs parsed) \<longleftrightarrow> (\<exists>item\<in>set parsed. code item = c \<and> own_text item = Some t)"
proof -
  have "(c, t) \<in> set (case own_text item of None \<Rightarrow> [] | Some t' \<Rightarrow> [(code item, t')])
      \<longleftrightarrow> code item = c \<and> own_text item = Some t" for item :: "'a parsed_item"
    by (cases "own_text item") auto
  then show ?thesis by (simp add: text_pairs_def)
qed

lemma own_text_Some: "own_text item = Some t \<longleftrightarrow> node_text (node item) = Some t \<and> t \<noteq> []"
  by (auto simp: own_text_def split: option.splits)

lemma cue_of_item_message:
  assumes "is_randomCode c" and "t \<noteq> []" and "list_all is_dot t"
  shows "cue_of_item (message c t) = Inr (Some (c, t))"
  using cue_of_item_first_marker [of "[]" c t "[]"] is_randomCode_props(1,2) [OF assms(1)] assms(2,3)
  by (simp add: message_def)

lemma translatedToCues_messages:
  assumes "\<forall>(c, t)\<in>set ps. is_randomCode c \<and> t \<noteq> [] \<and> list_all is_dot t"
  shows "translatedToCues (map (\<lambda>(c, t). message c t) ps) = Inr ps"
  using assms by (induction ps) (auto simp: cue_of_item_message)

lemma distinct_text_pairs: "distinct (map code parsed) \<Longrightarrow> distinct (map fst (text_pairs parsed))"
proof (induction parsed)
  case Nil
  then show ?case by (simp add: text_pairs_def)
next
  case (Cons item parsed)
  have "fst ` set (text_pairs parsed) \<subseteq> code ` set parsed"
    by (auto simp: text_pairs_set)
  with Cons show ?case
    by (cases "own_text item") (auto simp: text_pairs_def)
qed

lemma new_Map_text_pairs:
  assumes "distinct (map code parsed)" and "item \<in> set parsed"
  shows "new_Map (text_pairs parsed) (code item) = own_text item"
proof (cases "own_text item")
  case None
  have "code item \<notin> fst ` set (text_pairs parsed)"
  proof
    assume "code item \<in> fst ` set (text_pairs parsed)"
    then obtain t item' where i': "item' \<in> set parsed" "code item' = code item"
      "own_text item' = Some t" by (auto simp: text_pairs_set)
    with assms have "item' = item" by (meson distinct_map inj_onD)
    with i'(3) None show False by simp
  qed
  with None show ?thesis by (simp add: new_Map_None)
next
  case (Some t)
  with assms(2) have "(code item, t) \<in> set (text_pairs parsed)" by (auto simp: text_pairs_set)
  with Some show ?thesis using distinct_text_pairs [OF assms(1)] by (simp add: new_Map_distinct)
qed

lemma prepare_own_text:
  "out_node (prepare_item \<lparr>node = node item, code = code item, translated = own_text item\<rparr>)
     = node item"
  by (cases "node item") (auto simp: prepare_item_def own_text_def split: option.splits)

lemma reassembly_identity:
  assumes "distinct (map code parsed)"
  shows "map out_node (prepareOutput (applyTranslationCues parsed (text_pairs parsed)))
     = map node parsed"
proof (rule nth_equalityI)
  show "length (map out_node (prepareOutput (applyTranslationCues parsed (text_pairs parsed))))
      = length (map node parsed)" by simp
next
  fix i assume "i < length (map out_node (prepareOutput (applyTranslationCues parsed (text_pairs parsed))))"
  then have i: "i < length parsed" by simp
  then have "new_Map (text_pairs parsed) (code (parsed ! i)) = own_text (parsed ! i)"
    using assms by (simp add: new_Map_text_pairs)
  then show "map out_node (prepareOutput (applyTranslationCues parsed (text_pairs parsed))) ! i
      = map node parsed ! i"
    using i by (simp add: prepareOutput_nth prepare_own_text)
qed

lemma main_identity:
  assumes q: "getMessageQueue parsed (batchSize opts) = Inr qs"
    and tq: "translateQueues opts api 0 qs = (calls, Inr (messages parsed))"
    and codes: "\<forall>item\<in>set parsed. is_randomCode (code item)"
    and dist: "distinct (map code parsed)"
    and texts: "\<forall>item\<in>set parsed. \<forall>t. node_text (node item) = Some t \<longrightarrow> list_all is_dot t"
  shows "\<exists>out. main opts api parsed = (calls, Inr out) \<and> map out_node out = map node parsed"
proof -
  have "\<forall>(c, t)\<in>set (text_pairs parsed). is_randomCode c \<and> t \<noteq> [] \<and> list_all is_dot t"
    using codes texts by (auto simp: text_pairs_set own_text_Some)
  then have "translatedToCues (messages parsed) = Inr (text_pairs parsed)"
    unfolding messages_text_pairs by (rule translatedToCues_messages)
  then have "main opts api parsed
      = (calls, Inr (prepareOutput (applyTranslationCues parsed (text_pairs parsed))))"
    using q tq by (simp add: main_def)
  then show ?thesis using reassembly_identity [OF dist] by blast
qed

section \<open>The two examples of the specification\<close>

text \<open>
  Two cues \<^verbatim>\<open>Hello\<close> and \<^verbatim>\<open>World\<close> in one batch. When the service returns the two markers
  with \<^verbatim>\<open>Bonjour\<close> and \<^verbatim>\<open>Monde\<close>, the output texts are these, in the order of the input; when
  the call fails, the output texts are those of the input.
\<close>

lemma example_translated:
  "map (node_text \<circ> out_node) (projr (snd (main (ex_options\<lparr>batchSize := Finite 2\<rparr>)
      (\<lambda>i p. Resolved [Some (js ''<ABC123>\<newline>Bonjour\<newline><000000>\<newline><DEF456>\<newline>Monde'')])
      [ex_hello, ex_world])))
     = [Some (js ''Bonjour''), Some (js ''Monde'')]"
  by code_simp

lemma example_failed:
  "map (node_text \<circ> out_node) (projr (snd (main (ex_options\<lparr>batchSize := Finite 2\<rparr>)
      (\<lambda>i p. Rejected) [ex_hello, ex_world])))
     = [Some (js ''Hello''), Some (js ''World'')]"
  by code_simp

section \<open>Round trip\<close>






section \<open>When the service fails\<close>

text \<open>
  When every call fails, the run ends normally, and the output is the input as long as
  the codes are distinct and no text has a second line.
\<close>

lemma translateQueue_no_content:
  "no_content (api (build_prompt opts q)) \<Longrightarrow>
   translateQueue opts api q = (build_prompt opts q, Inr q)"
  by (auto simp: translateQueue_def getChatGPTAnswer_def no_content_def Let_def
      split: api_result.splits list.splits option.splits)

lemma translateQueues_no_content:
  "\<forall>k p. no_content (api k p) \<Longrightarrow>
   translateQueues opts api i qs = (map (build_prompt opts) qs, Inr (concat qs))"
  by (induction qs arbitrary: i) (simp_all add: translateQueue_no_content)

lemma fail_open_of_single_lines:
  assumes "batchSize opts = Finite b" and "1 \<le> b"
    and "\<forall>item\<in>set parsed. is_randomCode (code item)"
    and "distinct (map code parsed)"
    and "\<forall>item\<in>set parsed. \<forall>t. node_text (node item) = Some t \<longrightarrow> list_all is_dot t"
    and "\<forall>k p. no_content (api k p)"
  shows "\<exists>qs out. main opts api parsed = (map (build_prompt opts) qs, Inr out)
          \<and> map out_node out = map node parsed"
proof -
  from getMessageQueue_batches [OF assms(2), of parsed] assms(1)
  obtain qs where q: "getMessageQueue parsed (batchSize opts) = Inr qs"
    and cat: "concat qs = messages parsed" by auto
  have "translateQueues opts api 0 qs = (map (build_prompt opts) qs, Inr (messages parsed))"
    using translateQueues_no_content [OF assms(6)] by (simp add: cat)
  from main_identity [OF q this assms(3,4,5)] show ?thesis by blast
qed

text \<open>
  C2. The claim is that a run whose every call fails returns the input unchanged. The
  code returns the queue of a failed call as its result, and that queue is then parsed
  like a reply; the parser keeps one line of a text, so a cue of two lines loses its
  second line, whether the call is rejected or returns no content.
\<close>

theorem failed_transport_drops_second_line:
  "node ex_two_lines = Cue \<lparr>timing = 2, cue_text = Some (js ''Hello\<newline>World'')\<rparr>
   \<and> snd (main ex_options (\<lambda>i p. Rejected) [ex_two_lines])
       = Inr [Rewritten (Cue \<lparr>timing = 2, cue_text = Some (js ''Hello'')\<rparr>)]
   \<and> snd (main ex_options (\<lambda>i p. Resolved [None]) [ex_two_lines])
       = Inr [Rewritten (Cue \<lparr>timing = 2, cue_text = Some (js ''Hello'')\<rparr>)]"
  by code_simp

end
